theory Spec2Isabelle
  imports Complex_Main "HOL-Library.Sublist" "HOL-Library.AList" "HOL-Library.Multiset"
begin

section \<open>The content-analysis service of VlogSphere (services/aiService)\<close>

text \<open>
  The module exports four functions: \<open>generateTags\<close>, \<open>suggestCategories\<close>,
  \<open>analyzeSentiment\<close> and \<open>extractKeyPhrases\<close>. Each wraps its body in
  \<^verbatim>\<open>try { ... } catch (error) { console.error(...); return <default>; }\<close>.
  Every function is modelled twice: \<open>f_try\<close> is the body of the \<^verbatim>\<open>try\<close> block and
  returns \<open>Inl e\<close> where the JavaScript throws \<open>e\<close>; \<open>f\<close> is the exported function, which
  maps \<open>Inl e\<close> to the default of its \<^verbatim>\<open>catch\<close> block.

  Strings are lists of \<open>char\<close>: the model covers strings whose UTF-16 code units lie in
  U+0000..U+00FF, one \<open>char\<close> per code unit, so that \<open>length\<close> is JavaScript's
  \<^verbatim>\<open>.length\<close>. Line numbers are those of the module's source file.
\<close>

subsection \<open>JavaScript values and strings\<close>

datatype error = TypeError

datatype jsvalue =
    JUndefined
  | JNull
  | JBoolean bool
  | JNumber int
  | JString string

fun typeof :: "jsvalue \<Rightarrow> string" where
  "typeof JUndefined = ''undefined''"
| "typeof JNull = ''object''"
| "typeof (JBoolean b) = ''boolean''"
| "typeof (JNumber n) = ''number''"
| "typeof (JString s) = ''string''"

fun truthy :: "jsvalue \<Rightarrow> bool" where
  "truthy JUndefined = False"
| "truthy JNull = False"
| "truthy (JBoolean b) = b"
| "truthy (JNumber n) = (n \<noteq> 0)"
| "truthy (JString s) = (s \<noteq> [])"

text \<open>
  Only a string has the methods \<^verbatim>\<open>toLowerCase\<close> and \<^verbatim>\<open>split\<close>: reading them from
  \<^verbatim>\<open>undefined\<close> or \<^verbatim>\<open>null\<close> throws a TypeError, and on a boolean or a number the
  property is \<^verbatim>\<open>undefined\<close>, whose call throws a TypeError.
\<close>

fun the_string :: "jsvalue \<Rightarrow> error + string" where
  "the_string (JString s) = Inr s"
| "the_string v = Inl TypeError"

definition is_upper :: "char \<Rightarrow> bool" where
  "is_upper c = (let n = (of_char c :: nat) in
     (65 \<le> n \<and> n \<le> 90) \<or> (192 \<le> n \<and> n \<le> 222 \<and> n \<noteq> 215))"

definition lower_char :: "char \<Rightarrow> char" where
  "lower_char c = (if is_upper c then char_of ((of_char c :: nat) + 32) else c)"

definition toLowerCase :: "string \<Rightarrow> string" where
  "toLowerCase s = map lower_char s"

text \<open>The regular-expression classes \<^verbatim>\<open>\w\<close>, \<^verbatim>\<open>\d\<close> and \<^verbatim>\<open>\s\<close> (no unicode flag).\<close>

definition is_digit :: "char \<Rightarrow> bool" where
  "is_digit c = (let n = (of_char c :: nat) in 48 \<le> n \<and> n \<le> 57)"

definition is_word_char :: "char \<Rightarrow> bool" where
  "is_word_char c = (let n = (of_char c :: nat) in
     (97 \<le> n \<and> n \<le> 122) \<or> (65 \<le> n \<and> n \<le> 90) \<or> (48 \<le> n \<and> n \<le> 57) \<or> n = 95)"

definition is_space :: "char \<Rightarrow> bool" where
  "is_space c = (let n = (of_char c :: nat) in (9 \<le> n \<and> n \<le> 13) \<or> n = 32 \<or> n = 160)"

text \<open>\<^verbatim>\<open>s.trim()\<close>\<close>

definition trim :: "string \<Rightarrow> string" where
  "trim s = rev (dropWhile is_space (rev (dropWhile is_space s)))"

text \<open>\<^verbatim>\<open>s.includes(t)\<close>: \<open>t\<close> occurs in \<open>s\<close> as a contiguous substring.\<close>

fun str_includes :: "string \<Rightarrow> string \<Rightarrow> bool" where
  "str_includes [] t = (t = [])"
| "str_includes (c # cs) t = (prefix t (c # cs) \<or> str_includes cs t)"

text \<open>\<^verbatim>\<open>xs.join(sep)\<close>\<close>

fun join :: "string \<Rightarrow> string list \<Rightarrow> string" where
  "join sep [] = []"
| "join sep [x] = x"
| "join sep (x # y # ys) = x @ sep @ join sep (y # ys)"

text \<open>
  \<^verbatim>\<open>s.split(/[C]+/)\<close> for a character class \<open>C\<close>, given as the predicate \<open>sep\<close>: the
  pieces between the maximal runs of separator characters. A run at the start or the end
  of \<open>s\<close> leaves an empty piece there, and the empty string splits into one empty piece.
\<close>

fun split_runs :: "(char \<Rightarrow> bool) \<Rightarrow> string \<Rightarrow> string list" where
  "split_runs sep [] = [[]]"
| "split_runs sep (c # cs) =
     (if sep c then
        (case cs of
           [] \<Rightarrow> [] # split_runs sep cs
         | d # ds \<Rightarrow> if sep d then split_runs sep cs else [] # split_runs sep cs)
      else
        (case split_runs sep cs of
           [] \<Rightarrow> [[c]]
         | w # ws \<Rightarrow> (c # w) # ws))"

text \<open>
  \<^verbatim>\<open>xs.slice(start, end)\<close>: a negative index counts from the end of the array, and both
  indices are clamped to the array.
\<close>

definition slice :: "'a list \<Rightarrow> int \<Rightarrow> int \<Rightarrow> 'a list" where
  "slice xs start end' =
     (let len = int (length xs);
          k = (if start < 0 then max (len + start) 0 else min start len);
          final = (if end' < 0 then max (len + end') 0 else min end' len)
      in take (nat (final - k)) (drop (nat k) xs))"

text \<open>\<^verbatim>\<open>[...new Set(xs)]\<close>: the elements of \<open>xs\<close> in the order of their first occurrence.\<close>

definition Set_spread :: "'a list \<Rightarrow> 'a list" where
  "Set_spread xs = foldl (\<lambda>seen x. if x \<in> set seen then seen else seen @ [x]) [] xs"

subsection \<open>Plain objects used as dictionaries\<close>

text \<open>
  An object literal \<^verbatim>\<open>{}\<close> is modelled by its own properties in insertion order (no key
  of the module is an array index; see \<open>filteredTokens\<close> below). It inherits from
  \<^verbatim>\<open>Object.prototype\<close>: reading a key that is not an own property but names a property
  of \<^verbatim>\<open>Object.prototype\<close> yields that inherited function or object, and assigning to
  \<^verbatim>\<open>__proto__\<close> runs the inherited setter, which ignores a value that is neither an
  object nor \<^verbatim>\<open>null\<close>.
\<close>

type_synonym 'v jsobject = "(string \<times> 'v) list"

definition Object_prototype_keys :: "string list" where
  "Object_prototype_keys =
     [''constructor'', ''__defineGetter__'', ''__defineSetter__'', ''hasOwnProperty'',
      ''__lookupGetter__'', ''__lookupSetter__'', ''isPrototypeOf'',
      ''propertyIsEnumerable'', ''toString'', ''valueOf'', ''__proto__'',
      ''toLocaleString'']"

datatype 'v lookup = Own 'v | Inherited | Undefined

definition obj_get :: "'v jsobject \<Rightarrow> string \<Rightarrow> 'v lookup" where
  "obj_get obj key =
     (case map_of obj key of
        Some v \<Rightarrow> Own v
      | None \<Rightarrow> if key \<in> set Object_prototype_keys then Inherited else Undefined)"

definition obj_set :: "'v jsobject \<Rightarrow> string \<Rightarrow> 'v \<Rightarrow> 'v jsobject" where
  "obj_set obj key v = (if key = ''__proto__'' then obj else AList.update key v obj)"

text \<open>
  The values the counting objects hold: a number, or the string that
  \<^verbatim>\<open>(obj[key] || 0) + 1\<close> produces when \<^verbatim>\<open>obj[key]\<close> is an inherited function or
  object (or such a string already).
\<close>

datatype propval = Number nat | Text

text \<open>\<^verbatim>\<open>obj[key] = (obj[key] || 0) + 1\<close>\<close>

definition increment :: "propval jsobject \<Rightarrow> string \<Rightarrow> propval jsobject" where
  "increment obj key =
     obj_set obj key
       (case obj_get obj key of
          Own (Number n) \<Rightarrow> Number (n + 1)
        | Own Text \<Rightarrow> Text
        | Inherited \<Rightarrow> Text
        | Undefined \<Rightarrow> Number 1)"

text \<open>
  \<^verbatim>\<open>Object.entries(obj).sort(([,a], [,b]) => b - a)\<close>. The comparator returns
  \<open>None\<close> for NaN (a subtraction with a non-numeric string), which
  \<^verbatim>\<open>Array.prototype.sort\<close> treats as \<open>+0\<close>. The sort is stable; it is modelled by
  insertion, which yields the one stable order whenever the comparator is consistent
  (as it is on entries that all hold numbers, and on two entries one of which holds a
  string). For an inconsistent comparator ECMAScript leaves the order to the
  implementation, and the model fixes the order of insertion sort.
\<close>

fun by_value_desc :: "string \<times> propval \<Rightarrow> string \<times> propval \<Rightarrow> int option" where
  "by_value_desc (k, Number a) (k', Number b) = Some (int b - int a)"
| "by_value_desc x y = None"

fun sort_insert :: "('a \<Rightarrow> 'a \<Rightarrow> int option) \<Rightarrow> 'a \<Rightarrow> 'a list \<Rightarrow> 'a list" where
  "sort_insert comparefn x [] = [x]"
| "sort_insert comparefn x (y # ys) =
     (if (case comparefn x y of None \<Rightarrow> True | Some v \<Rightarrow> v \<le> 0)
      then x # y # ys else y # sort_insert comparefn x ys)"

definition js_sort :: "('a \<Rightarrow> 'a \<Rightarrow> int option) \<Rightarrow> 'a list \<Rightarrow> 'a list" where
  "js_sort comparefn xs = foldr (sort_insert comparefn) xs []"

subsection \<open>The \<open>natural\<close> package\<close>

text \<open>
  \<^verbatim>\<open>natural.WordTokenizer\<close> is a class whose \<^verbatim>\<open>tokenize\<close> splits its argument at the
  maximal runs of characters outside \<^verbatim>\<open>[A-Za-z0-9_]\<close> (and the Cyrillic letters, which
  lie outside the modelled range) and discards the pieces \<^verbatim>\<open>''\<close> and \<^verbatim>\<open>' '\<close>.
\<close>

definition tokenize :: "string \<Rightarrow> string list" where
  "tokenize s = filter (\<lambda>t. t \<noteq> [] \<and> t \<noteq> '' '') (split_runs (\<lambda>c. \<not> is_word_char c) s)"

text \<open>
  \<^verbatim>\<open>new natural.WordTokenizer()\<close> constructs the tokenizer, whose \<^verbatim>\<open>tokenize\<close> is
  the function above.
\<close>

text \<open>
  \<^verbatim>\<open>natural.WordTokenizer()\<close>, without \<^verbatim>\<open>new\<close>: calling a class constructor throws a
  TypeError. (In the releases of the package where \<^verbatim>\<open>WordTokenizer\<close> is a plain
  function, the call returns \<^verbatim>\<open>undefined\<close> and reading \<^verbatim>\<open>.tokenize\<close> from it throws
  a TypeError.)
\<close>

definition WordTokenizer_call :: "error + (string \<Rightarrow> string list)" where
  "WordTokenizer_call = Inl TypeError"

subsection \<open>analyzeSentiment\<close>

text \<open>
  \<open>getSentiment\<close> stands for \<^verbatim>\<open>analyzer.getSentiment\<close> of the AFINN analyzer with the
  Porter stemmer, which the package provides; the score is taken as a real number.
\<close>

definition analyzeSentiment_try :: "(string list \<Rightarrow> real) \<Rightarrow> jsvalue \<Rightarrow> error + string" where
  "analyzeSentiment_try getSentiment description =
     (case WordTokenizer_call of
        Inl e \<Rightarrow> Inl e
      | Inr tokenizer \<Rightarrow>
          (case the_string description of
             Inl e \<Rightarrow> Inl e
           | Inr d \<Rightarrow>
               let tokens = tokenizer (toLowerCase d);
                   sentimentScore = getSentiment tokens
               in Inr (if sentimentScore > 0.1 then ''positive''
                       else if sentimentScore < - 0.1 then ''negative''
                       else ''neutral'')))"

definition analyzeSentiment :: "(string list \<Rightarrow> real) \<Rightarrow> jsvalue \<Rightarrow> string" where
  "analyzeSentiment getSentiment description =
     (case analyzeSentiment_try getSentiment description of
        Inl e \<Rightarrow> ''neutral''
      | Inr label \<Rightarrow> label)"

subsection \<open>The static tables\<close>

definition COMMON_TAGS :: "string list" where
  "COMMON_TAGS =
     [''vlog'', ''daily'', ''life'', ''adventure'', ''travel'', ''food'', ''tech'',
      ''lifestyle'', ''fitness'', ''music'', ''art'', ''photography'', ''diy'',
      ''tutorial'', ''review'', ''challenge'', ''comedy'', ''gaming'', ''sports'',
      ''health'', ''education'', ''business'', ''entertainment'', ''fashion'',
      ''beauty'', ''cooking'', ''nature'', ''city'', ''culture'', ''experience'']"

definition CATEGORY_TAGS :: "string list jsobject" where
  "CATEGORY_TAGS =
     [(''technology'', [''tech'', ''gadget'', ''software'', ''hardware'', ''innovation'',
                        ''digital'', ''AI'', ''coding'', ''programming'']),
      (''travel'', [''travel'', ''adventure'', ''explore'', ''journey'', ''destination'',
                    ''culture'', ''vacation'', ''trip'', ''wanderlust'']),
      (''lifestyle'', [''lifestyle'', ''daily'', ''routine'', ''habits'', ''wellness'',
                       ''mindfulness'', ''productivity'', ''selfcare'']),
      (''food'', [''food'', ''cooking'', ''recipe'', ''kitchen'', ''culinary'', ''delicious'',
                  ''meal'', ''restaurant'', ''taste'']),
      (''fashion'', [''fashion'', ''style'', ''outfit'', ''clothing'', ''trend'', ''design'',
                     ''wardrobe'', ''accessories'']),
      (''fitness'', [''fitness'', ''workout'', ''exercise'', ''health'', ''gym'', ''training'',
                     ''strength'', ''cardio'', ''yoga'']),
      (''music'', [''music'', ''song'', ''melody'', ''performance'', ''concert'',
                   ''instrument'', ''band'', ''artist'', ''rhythm'']),
      (''art'', [''art'', ''creative'', ''painting'', ''drawing'', ''design'', ''artist'',
                 ''gallery'', ''masterpiece'', ''inspiration'']),
      (''business'', [''business'', ''entrepreneur'', ''startup'', ''marketing'', ''success'',
                      ''leadership'', ''strategy'', ''growth'']),
      (''education'', [''education'', ''learning'', ''tutorial'', ''knowledge'', ''study'',
                       ''lesson'', ''teaching'', ''skill'']),
      (''entertainment'', [''entertainment'', ''fun'', ''show'', ''performance'', ''comedy'',
                           ''drama'', ''movie'', ''celebrity'']),
      (''gaming'', [''gaming'', ''game'', ''playthrough'', ''stream'', ''esports'', ''console'',
                    ''pc'', ''multiplayer'']),
      (''sports'', [''sports'', ''athlete'', ''competition'', ''training'', ''game'',
                    ''championship'', ''fitness'', ''exercise'']),
      (''health'', [''health'', ''wellness'', ''medical'', ''nutrition'', ''mentalhealth'',
                    ''selfcare'', ''healing'', ''recovery'']),
      (''science'', [''science'', ''research'', ''discovery'', ''experiment'', ''laboratory'',
                     ''technology'', ''innovation'']),
      (''photography'', [''photography'', ''photo'', ''camera'', ''shoot'', ''portrait'',
                         ''landscape'', ''editing'', ''visual'']),
      (''diy'', [''diy'', ''craft'', ''handmade'', ''project'', ''creative'', ''build'',
                 ''make'', ''tutorial'']),
      (''other'', [''vlog'', ''video'', ''content'', ''creator'', ''youtube'', ''social'',
                   ''media''])]"

text \<open>
  \<^verbatim>\<open>require('natural').stopwords\<close> is an array of the package; every function below
  takes it as the parameter \<open>stopwords\<close>, and the theorems hold for every list.
  \<open>stopwords_en\<close> is the English list of the package (function words, then the single
  letters, \<^verbatim>\<open>$\<close>, the digits and \<^verbatim>\<open>_\<close>); the functions are evaluated with it on
  concrete inputs.
\<close>

definition stopwords_en :: "string list" where
  "stopwords_en =
     [''about'', ''above'', ''after'', ''again'', ''all'', ''also'', ''am'', ''an'', ''and'',
      ''another'', ''any'', ''are'', ''as'', ''at'', ''be'', ''because'', ''been'', ''before'',
      ''being'', ''below'', ''between'', ''both'', ''but'', ''by'', ''came'', ''can'',
      ''cannot'', ''come'', ''could'', ''did'', ''do'', ''does'', ''doing'', ''during'',
      ''each'', ''few'', ''for'', ''from'', ''further'', ''get'', ''got'', ''has'', ''had'',
      ''he'', ''have'', ''her'', ''here'', ''him'', ''himself'', ''his'', ''how'', ''if'',
      ''in'', ''into'', ''is'', ''it'', ''its'', ''itself'', ''like'', ''make'', ''many'',
      ''me'', ''might'', ''more'', ''most'', ''much'', ''must'', ''my'', ''myself'', ''never'',
      ''now'', ''of'', ''on'', ''only'', ''or'', ''other'', ''our'', ''ours'', ''ourselves'',
      ''out'', ''over'', ''own'', ''said'', ''same'', ''see'', ''should'', ''since'', ''so'',
      ''some'', ''still'', ''such'', ''take'', ''than'', ''that'', ''the'', ''their'',
      ''theirs'', ''them'', ''themselves'', ''then'', ''there'', ''these'', ''they'', ''this'',
      ''those'', ''through'', ''to'', ''too'', ''under'', ''until'', ''up'', ''very'', ''was'',
      ''way'', ''we'', ''well'', ''were'', ''what'', ''where'', ''when'', ''which'', ''while'',
      ''who'', ''whom'', ''with'', ''would'', ''why'', ''you'', ''your'', ''yours'',
      ''yourself'']
     @ map (\<lambda>c. [c]) ''abcdefghijklmnopqrstuvwxyz$1234567890_''"

subsection \<open>generateTags\<close>

text \<open>\<^verbatim>\<open>!v\<close>\<close>

definition falsy :: "jsvalue \<Rightarrow> bool" where
  "falsy v = (\<not> truthy v)"

text \<open>\<^verbatim>\<open>s.replace(/[C]/g, r)\<close>: every character of the class is replaced by \<open>r\<close>.\<close>

definition replace_each :: "(char \<Rightarrow> bool) \<Rightarrow> string \<Rightarrow> string \<Rightarrow> string" where
  "replace_each cls r s = concat (map (\<lambda>c. if cls c then r else [c]) s)"

text \<open>\<^verbatim>\<open>s.replace(/[C]+/g, r)\<close>: every maximal run of the class is replaced by \<open>r\<close>.\<close>

fun replace_runs :: "(char \<Rightarrow> bool) \<Rightarrow> string \<Rightarrow> string \<Rightarrow> string" where
  "replace_runs cls r [] = []"
| "replace_runs cls r (c # cs) =
     (if cls c then
        (case cs of
           [] \<Rightarrow> r
         | d # ds \<Rightarrow> if cls d then replace_runs cls r cs else r @ replace_runs cls r cs)
      else c # replace_runs cls r cs)"

text \<open>The class \<^verbatim>\<open>[^\w\s]\<close>.\<close>

definition is_punct :: "char \<Rightarrow> bool" where
  "is_punct c = (\<not> is_word_char c \<and> \<not> is_space c)"

text \<open>Lines 49-52: lowercase, punctuation to spaces, whitespace runs to one space, trim.\<close>

definition cleanText_of :: "string \<Rightarrow> string" where
  "cleanText_of d = trim (replace_runs is_space '' '' (replace_each is_punct '' '' (toLowerCase d)))"

text \<open>
  Lines 59-63. The test \<^verbatim>\<open>/^[\d]+$/\<close> removes the tokens that consist of digits only,
  so no key of \<open>wordFreq\<close> is an array index and its entries keep their insertion order.
\<close>

definition filteredTokens_of :: "string list \<Rightarrow> string list \<Rightarrow> string list" where
  "filteredTokens_of stopwords tokens =
     filter (\<lambda>token. length token > 2 \<and> token \<notin> set stopwords
                      \<and> \<not> (token \<noteq> [] \<and> list_all is_digit token)) tokens"

text \<open>Lines 66-69: the \<^verbatim>\<open>forEach\<close> that counts into \<open>wordFreq\<close>.\<close>

definition wordFreq_of :: "string list \<Rightarrow> propval jsobject" where
  "wordFreq_of filteredTokens = foldl increment [] filteredTokens"

text \<open>Lines 72-75: sort the entries by count, keep the first 15, keep the words.\<close>

definition sortedWords_of :: "string list \<Rightarrow> string list" where
  "sortedWords_of filteredTokens =
     map fst (slice (js_sort by_value_desc (wordFreq_of filteredTokens)) 0 15)"

text \<open>
  Line 78: \<^verbatim>\<open>CATEGORY_TAGS[category] || CATEGORY_TAGS.other\<close>. An own or inherited
  property is truthy (an array, a function or an object), so the \<^verbatim>\<open>other\<close> list is
  taken only when the property is undefined.
\<close>

definition categorySpecificTags_of :: "string \<Rightarrow> string list lookup" where
  "categorySpecificTags_of category =
     (case obj_get CATEGORY_TAGS category of
        Undefined \<Rightarrow> obj_get CATEGORY_TAGS ''other''
      | found \<Rightarrow> found)"

text \<open>Lines 81-83: the keywords of the category that the text or a frequent word supports.\<close>

definition relevantCategoryTags_of :: "string \<Rightarrow> string list \<Rightarrow> string list \<Rightarrow> string list" where
  "relevantCategoryTags_of cleanText sortedWords categorySpecificTags =
     filter (\<lambda>tag. str_includes cleanText tag
                \<or> list_ex (\<lambda>word. str_includes tag word) sortedWords)
       categorySpecificTags"

text \<open>Lines 86-95: the candidate pool, in its three parts.\<close>

definition allPotentialTags_of :: "string \<Rightarrow> string list \<Rightarrow> string list \<Rightarrow> string list" where
  "allPotentialTags_of cleanText sortedWords relevantCategoryTags =
     relevantCategoryTags
     @ filter (\<lambda>word. word \<notin> set relevantCategoryTags
                 \<and> list_ex (\<lambda>commonTag. str_includes word commonTag
                               \<or> str_includes commonTag word) COMMON_TAGS)
         sortedWords
     @ filter (\<lambda>tag. str_includes cleanText tag) COMMON_TAGS"

text \<open>
  The body of the \<^verbatim>\<open>try\<close> block. Line 81 calls \<^verbatim>\<open>.filter\<close> on
  \<open>categorySpecificTags\<close>: where that is not an array but an inherited function or object,
  \<^verbatim>\<open>.filter\<close> is undefined and the call throws a TypeError.
  \<open>maxTags\<close> is an integer (8 when the caller passes none, and \<open>category\<close> is
  \<^verbatim>\<open>'other'\<close> then).
\<close>

definition generateTags_try :: "string list \<Rightarrow> jsvalue \<Rightarrow> string \<Rightarrow> int \<Rightarrow> error + string list" where
  "generateTags_try stopwords description category maxTags =
     (if falsy description \<or> typeof description \<noteq> ''string'' then Inr []
      else
        (case the_string description of
           Inl e \<Rightarrow> Inl e
         | Inr d \<Rightarrow>
            (let cleanText = cleanText_of d;
                 tokens = tokenize cleanText;
                 filteredTokens = filteredTokens_of stopwords tokens;
                 sortedWords = sortedWords_of filteredTokens
             in
               (case categorySpecificTags_of category of
                  Own categorySpecificTags \<Rightarrow>
                    (let relevantCategoryTags =
                           relevantCategoryTags_of cleanText sortedWords categorySpecificTags;
                         allPotentialTags =
                           allPotentialTags_of cleanText sortedWords relevantCategoryTags;
                         uniqueTags =
                           filter (\<lambda>tag. length tag \<ge> 3)
                             (slice (Set_spread allPotentialTags) 0 maxTags)
                     in Inr uniqueTags)
                | other \<Rightarrow> Inl TypeError))))"

definition generateTags :: "string list \<Rightarrow> jsvalue \<Rightarrow> string \<Rightarrow> int \<Rightarrow> string list" where
  "generateTags stopwords description category maxTags =
     (case generateTags_try stopwords description category maxTags of
        Inl e \<Rightarrow> []
      | Inr uniqueTags \<Rightarrow> uniqueTags)"

subsection \<open>suggestCategories\<close>

text \<open>Lines 122-127: the number of keywords of one category that \<open>cleanText\<close> includes.\<close>

definition category_score :: "string \<Rightarrow> string list \<Rightarrow> nat" where
  "category_score cleanText keywords =
     foldl (\<lambda>score keyword. if str_includes cleanText keyword then score + 1 else score)
       0 keywords"

text \<open>
  The body of the \<^verbatim>\<open>try\<close> block, for a description that is a string and tags that are
  an array of strings. \<^verbatim>\<open>Object.entries(CATEGORY_TAGS)\<close> is the table in its written
  order.
\<close>

definition suggestCategories_try :: "string \<Rightarrow> string list \<Rightarrow> error + string list" where
  "suggestCategories_try description tags =
     (let cleanText = toLowerCase (description @ '' '' @ join '' '' tags);
          categoryScores =
            foldl (\<lambda>scores (category, keywords).
                     let score = category_score cleanText keywords
                     in if score > 0 then obj_set scores category (Number score) else scores)
              [] CATEGORY_TAGS;
          suggestedCategories = map fst (slice (js_sort by_value_desc categoryScores) 0 3)
      in Inr suggestedCategories)"

definition suggestCategories :: "string \<Rightarrow> string list \<Rightarrow> string list" where
  "suggestCategories description tags =
     (case suggestCategories_try description tags of
        Inl e \<Rightarrow> []
      | Inr suggestedCategories \<Rightarrow> suggestedCategories)"

subsection \<open>extractKeyPhrases\<close>

text \<open>The class \<^verbatim>\<open>[.!?]\<close>.\<close>

definition is_sentence_end :: "char \<Rightarrow> bool" where
  "is_sentence_end c = (c = CHR ''.'' \<or> c = CHR ''!'' \<or> c = CHR ''?'')"

text \<open>Lines 185-188: the filtered words of one sentence.\<close>

definition words_of :: "string list \<Rightarrow> string \<Rightarrow> string list" where
  "words_of stopwords sentence =
     filter (\<lambda>word. length word > 2 \<and> word \<notin> set stopwords)
       (split_runs is_space (replace_each is_punct [] (toLowerCase sentence)))"

text \<open>
  Lines 191-198: the \<^verbatim>\<open>for\<close> loop over \<open>i\<close>, pushing onto \<open>phrases\<close>. The bounds
  \<^verbatim>\<open>words.length - 1\<close> and \<^verbatim>\<open>words.length - 2\<close> may be negative, so the comparisons
  are over the integers.
\<close>

function ngram_loop :: "string list \<Rightarrow> nat \<Rightarrow> string list \<Rightarrow> string list" where
  "ngram_loop words i phrases =
     (if int i < int (length words) - 1 then
        (let phrases1 =
               (if int i < int (length words) - 2 then
                  (let trigram = join '' '' (slice words (int i) (int i + 3))
                   in if length trigram > 8 then phrases @ [trigram] else phrases)
                else phrases);
             bigram = join '' '' (slice words (int i) (int i + 2));
             phrases2 = (if length bigram > 5 then phrases1 @ [bigram] else phrases1)
         in ngram_loop words (i + 1) phrases2)
      else phrases)"
  by pat_completeness auto
termination
  by (relation "measure (\<lambda>(words, i, phrases). length words - i)") auto

declare ngram_loop.simps [simp del]

text \<open>Lines 182-199: the \<^verbatim>\<open>forEach\<close> over the sentences, which all push onto \<open>phrases\<close>.\<close>

definition phrases_of :: "string list \<Rightarrow> string list \<Rightarrow> string list" where
  "phrases_of stopwords sentences =
     foldl (\<lambda>phrases sentence. ngram_loop (words_of stopwords sentence) 0 phrases)
       [] sentences"

text \<open>
  The body of the \<^verbatim>\<open>try\<close> block; \<open>maxPhrases\<close> is an integer (5 when the caller passes
  none).
\<close>

definition extractKeyPhrases_try :: "string list \<Rightarrow> jsvalue \<Rightarrow> int \<Rightarrow> error + string list" where
  "extractKeyPhrases_try stopwords description maxPhrases =
     (case the_string description of
        Inl e \<Rightarrow> Inl e
      | Inr d \<Rightarrow>
         (let sentences = filter (\<lambda>s. length (trim s) > 0) (split_runs is_sentence_end d);
              phrases = phrases_of stopwords sentences;
              phraseFreq = foldl increment [] phrases
          in Inr (map fst (slice (js_sort by_value_desc phraseFreq) 0 maxPhrases))))"

definition extractKeyPhrases :: "string list \<Rightarrow> jsvalue \<Rightarrow> int \<Rightarrow> string list" where
  "extractKeyPhrases stopwords description maxPhrases =
     (case extractKeyPhrases_try stopwords description maxPhrases of
        Inl e \<Rightarrow> []
      | Inr phrases \<Rightarrow> phrases)"

subsection \<open>The n-gram pool in the words of the specification\<close>

text \<open>
  What one sequence of filtered words contributes to the candidate pool according to the
  specification: at each index \<open>i\<close>, the trigram starting there if \<open>i + 2\<close> is in
  bounds and the joined string is longer than 8 characters, and the bigram starting there
  if \<open>i + 1\<close> is in bounds and the joined string is longer than 5 characters.
\<close>

definition trigram_at :: "string list \<Rightarrow> nat \<Rightarrow> string" where
  "trigram_at words i = join '' '' [words ! i, words ! (i + 1), words ! (i + 2)]"

definition bigram_at :: "string list \<Rightarrow> nat \<Rightarrow> string" where
  "bigram_at words i = join '' '' [words ! i, words ! (i + 1)]"

definition ngrams_at :: "string list \<Rightarrow> nat \<Rightarrow> string list" where
  "ngrams_at words i =
     (if i + 2 < length words \<and> 8 < length (trigram_at words i)
      then [trigram_at words i] else [])
     @ (if i + 1 < length words \<and> 5 < length (bigram_at words i)
        then [bigram_at words i] else [])"

definition ngram_pool_spec :: "string list \<Rightarrow> string list" where
  "ngram_pool_spec words = concat (map (ngrams_at words) [0..<length words])"

subsection \<open>The category ranking in the words of the specification\<close>

text \<open>
  The score of a category: the number of its keywords that occur in the blob as a literal
  substring, each keyword counted once.
\<close>

definition keyword_score_spec :: "string \<Rightarrow> string list \<Rightarrow> nat" where
  "keyword_score_spec blob keywords =
     card {k \<in> set keywords. \<exists>before after. blob = before @ k @ after}"

text \<open>The categories of the table with their scores, in table order, without the zero scores.\<close>

definition scored_categories_spec :: "string \<Rightarrow> string list \<Rightarrow> (string \<times> nat) list" where
  "scored_categories_spec description tags =
     (let blob = toLowerCase (description @ '' '' @ join '' '' tags)
      in filter (\<lambda>(category, score). 0 < score)
           (map (\<lambda>(category, keywords). (category, keyword_score_spec blob keywords))
              CATEGORY_TAGS))"

subsection \<open>The frequency ranking in the words of the specification\<close>

text \<open>
  The distinct tokens in the order of their first occurrence, each with the number of its
  occurrences, sorted by descending count (stably, so that equal counts keep the order of
  first occurrence), cut to the first 15.
\<close>

definition ranked_tokens_spec :: "string list \<Rightarrow> string list" where
  "ranked_tokens_spec tokens =
     take 15 (map fst (sort_key (\<lambda>(word, n). - int n)
                         (map (\<lambda>word. (word, count_list tokens word)) (Set_spread tokens))))"

section \<open>Theorems\<close>

subsection \<open>Arrays, sets and strings\<close>

lemma slice0_eq:
  "slice xs 0 n = (if n < 0 then take (nat (int (length xs) + n)) xs else take (nat n) xs)"
  by (auto simp: slice_def Let_def max_def min_def)

lemma set_slice: "set (slice xs a b) \<subseteq> set xs"
  unfolding slice_def Let_def
  by (meson set_take_subset set_drop_subset subset_trans)

lemma distinct_slice: "distinct xs \<Longrightarrow> distinct (slice xs a b)"
  by (simp add: slice_def Let_def)

lemma length_slice0: "0 \<le> n \<Longrightarrow> int (length (slice xs 0 n)) \<le> n"
  by (simp add: slice0_eq)

lemma Set_spread_aux:
  "distinct seen \<Longrightarrow>
     distinct (foldl (\<lambda>seen x. if x \<in> set seen then seen else seen @ [x]) seen xs)
     \<and> set (foldl (\<lambda>seen x. if x \<in> set seen then seen else seen @ [x]) seen xs)
         = set seen \<union> set xs"
  by (induction xs arbitrary: seen) auto

lemma distinct_Set_spread: "distinct (Set_spread xs)"
  using Set_spread_aux [of "[]" xs] by (simp add: Set_spread_def)

lemma set_Set_spread: "set (Set_spread xs) = set xs"
  using Set_spread_aux [of "[]" xs] by (simp add: Set_spread_def)

lemma of_char_lt_256: "(of_char c :: nat) < 256"
  by (cases c) simp

lemma lower_char_idem: "lower_char (lower_char c) = lower_char c"
  using of_char_lt_256 [of c]
  by (auto simp: lower_char_def is_upper_def Let_def)

lemma lower_space: "lower_char CHR '' '' = CHR '' ''"
  by (simp add: lower_char_def is_upper_def)

lemma toLowerCase_fixed: "(\<And>c. c \<in> set s \<Longrightarrow> lower_char c = c) \<Longrightarrow> toLowerCase s = s"
  by (simp add: toLowerCase_def map_idI)

lemma set_replace_each: "set (replace_each cls r s) \<subseteq> set s \<union> set r"
  by (auto simp: replace_each_def split: if_splits)

lemma set_replace_runs: "set (replace_runs cls r s) \<subseteq> set s \<union> set r"
proof (induction s)
  case Nil
  show ?case by simp
next
  case (Cons c cs)
  show ?case
  proof (cases cs)
    case Nil
    then show ?thesis by auto
  next
    case (Cons d ds)
    have "replace_runs cls r (c # cs) =
            (if cls c then (if cls d then replace_runs cls r cs else r @ replace_runs cls r cs)
             else c # replace_runs cls r cs)"
      unfolding Cons by (subst replace_runs.simps) simp
    then show ?thesis using Cons.IH by auto
  qed
qed

lemma set_trim: "set (trim s) \<subseteq> set s"
  unfolding trim_def
  by (metis set_rev set_dropWhileD subsetI)

lemma cleanText_lower: "c \<in> set (cleanText_of d) \<Longrightarrow> lower_char c = c"
proof -
  assume "c \<in> set (cleanText_of d)"
  then have "c \<in> set (toLowerCase d) \<or> c = CHR '' ''"
    using set_trim set_replace_runs set_replace_each
    unfolding cleanText_of_def by fastforce
  then show ?thesis
    by (auto simp: toLowerCase_def lower_char_idem lower_space)
qed

lemma split_runs_chars: "w \<in> set (split_runs sep s) \<Longrightarrow> set w \<subseteq> set s"
proof (induction s arbitrary: w)
  case Nil
  then show ?case by simp
next
  case (Cons c cs)
  show ?case
  proof (cases "sep c")
    case True
    then have "set (split_runs sep (c # cs)) \<subseteq> insert [] (set (split_runs sep cs))"
      by (cases cs) auto
    with Cons.prems have "w = [] \<or> w \<in> set (split_runs sep cs)" by auto
    then show ?thesis using Cons.IH by auto
  next
    case False
    show ?thesis
    proof (cases "split_runs sep cs")
      case Nil
      with False Cons.prems show ?thesis by simp
    next
      case (Cons v vs)
      with False Cons.prems have "w = c # v \<or> w \<in> set vs" by auto
      moreover have "set v \<subseteq> set cs" using Cons.IH [of v] Cons by simp
      moreover have "w \<in> set vs \<Longrightarrow> set w \<subseteq> set cs" using Cons.IH [of w] Cons by simp
      ultimately show ?thesis by auto
    qed
  qed
qed

lemma tokenize_chars: "t \<in> set (tokenize s) \<Longrightarrow> set t \<subseteq> set s"
  using split_runs_chars by (auto simp: tokenize_def)

subsection \<open>Objects and sorting\<close>

lemma keys_obj_set: "fst ` set (obj_set obj key v) \<subseteq> insert key (fst ` set obj)"
proof -
  have "set (map fst (AList.update key v obj)) \<subseteq> insert key (set (map fst obj))"
    by (auto simp: update_keys)
  then show ?thesis by (auto simp: obj_set_def)
qed

lemma keys_increment: "fst ` set (increment obj key) \<subseteq> insert key (fst ` set obj)"
  unfolding increment_def by (rule keys_obj_set)

lemma keys_foldl_increment: "fst ` set (foldl increment obj keys) \<subseteq> fst ` set obj \<union> set keys"
proof (induction keys arbitrary: obj)
  case Nil
  show ?case by simp
next
  case (Cons k ks)
  show ?case using Cons.IH [of "increment obj k"] keys_increment [of obj k] by auto
qed

lemma set_sort_insert: "set (sort_insert comparefn x xs) = insert x (set xs)"
  by (induction xs) auto

lemma set_js_sort: "set (js_sort comparefn xs) = set xs"
  by (induction xs) (simp_all add: js_sort_def set_sort_insert)

lemma length_sort_insert: "length (sort_insert comparefn x xs) = Suc (length xs)"
  by (induction xs) auto

lemma length_js_sort: "length (js_sort comparefn xs) = length xs"
  by (induction xs) (simp_all add: js_sort_def length_sort_insert)

lemma sortedWords_subset: "set (sortedWords_of filteredTokens) \<subseteq> set filteredTokens"
proof -
  have "set (sortedWords_of filteredTokens) \<subseteq> fst ` set (wordFreq_of filteredTokens)"
    using set_slice [of "js_sort by_value_desc (wordFreq_of filteredTokens)" 0 15]
    by (auto simp: sortedWords_of_def set_js_sort)
  then show ?thesis
    using keys_foldl_increment [of "[]" filteredTokens] by (auto simp: wordFreq_of_def)
qed

lemma filteredTokens_subset: "set (filteredTokens_of stopwords tokens) \<subseteq> set tokens"
  by (auto simp: filteredTokens_of_def)

lemma update_fresh: "key \<notin> fst ` set obj \<Longrightarrow> AList.update key v obj = obj @ [(key, v)]"
  by (induction obj) auto

lemma obj_set_fresh:
  "key \<noteq> ''__proto__'' \<Longrightarrow> key \<notin> fst ` set obj \<Longrightarrow> obj_set obj key v = obj @ [(key, v)]"
  by (simp add: obj_set_def update_fresh)

lemma sort_insert_counts:
  "sort_insert by_value_desc (case x of (category, score) \<Rightarrow> (category, Number score))
     (map (\<lambda>(category, score). (category, Number score)) ys)
   = map (\<lambda>(category, score). (category, Number score))
       (insort_key (\<lambda>p. - int (snd p)) x ys)"
  by (induction ys) (auto split: prod.splits)

lemma js_sort_counts:
  "js_sort by_value_desc (map (\<lambda>(category, score). (category, Number score)) xs)
   = map (\<lambda>(category, score). (category, Number score)) (sort_key (\<lambda>p. - int (snd p)) xs)"
proof (induction xs)
  case Nil
  show ?case by (simp add: js_sort_def)
next
  case (Cons x xs)
  then show ?case
    using sort_insert_counts [of x "sort_key (\<lambda>p. - int (snd p)) xs"]
    by (simp add: js_sort_def sort_key_def)
qed

subsection \<open>Tag Generator\<close>

lemma CATEGORY_TAGS_lower_all:
  "list_all (\<lambda>(category, keywords).
      list_all (\<lambda>k. length k < 3 \<or> toLowerCase k = k) keywords) CATEGORY_TAGS"
  by code_simp

lemma COMMON_TAGS_lower_all: "list_all (\<lambda>k. toLowerCase k = k) COMMON_TAGS"
  by code_simp

lemma obj_get_Own: "obj_get obj key = Own v \<Longrightarrow> (key, v) \<in> set obj"
  by (auto simp: obj_get_def map_of_SomeD split: option.splits if_splits)

lemma categorySpecificTags_Own:
  "categorySpecificTags_of category = Own kws \<Longrightarrow> \<exists>c. (c, kws) \<in> set CATEGORY_TAGS"
  unfolding categorySpecificTags_of_def
  by (cases "obj_get CATEGORY_TAGS category") (auto dest: obj_get_Own)

lemma keyword_lower:
  assumes "categorySpecificTags_of category = Own kws" and "k \<in> set kws" and "3 \<le> length k"
  shows "toLowerCase k = k"
proof -
  from assms(1) obtain c where "(c, kws) \<in> set CATEGORY_TAGS"
    using categorySpecificTags_Own by blast
  with CATEGORY_TAGS_lower_all have "list_all (\<lambda>k. length k < 3 \<or> toLowerCase k = k) kws"
    by (auto simp: list_all_iff)
  with assms(2,3) show ?thesis by (auto simp: list_all_iff)
qed

lemma token_lower: "t \<in> set (tokenize (cleanText_of d)) \<Longrightarrow> toLowerCase t = t"
  using tokenize_chars [of t "cleanText_of d"] cleanText_lower [of _ d]
  by (intro toLowerCase_fixed) auto

lemma allPotentialTags_sources:
  "set (allPotentialTags_of cleanText sortedWords
          (relevantCategoryTags_of cleanText sortedWords kws))
     \<subseteq> set kws \<union> set sortedWords \<union> set COMMON_TAGS"
  by (auto simp: allPotentialTags_of_def relevantCategoryTags_of_def)

lemma generateTags_try_Inr:
  assumes "generateTags_try stopwords description category maxTags = Inr tags"
  shows "tags = [] \<or>
         (\<exists>d kws pool. description = JString d
            \<and> categorySpecificTags_of category = Own kws
            \<and> set pool \<subseteq> set kws \<union> set (tokenize (cleanText_of d)) \<union> set COMMON_TAGS
            \<and> tags = filter (\<lambda>tag. 3 \<le> length tag) (slice (Set_spread pool) 0 maxTags))"
proof (cases description)
  case (JString d)
  show ?thesis
  proof (cases "d = []")
    case True
    with assms JString show ?thesis by (simp add: generateTags_try_def falsy_def)
  next
    case False
    define cleanText where "cleanText = cleanText_of d"
    define sortedWords where
      "sortedWords = sortedWords_of (filteredTokens_of stopwords (tokenize cleanText))"
    from assms JString False obtain kws where
      kws: "categorySpecificTags_of category = Own kws" and
      tags: "tags = filter (\<lambda>tag. 3 \<le> length tag)
               (slice (Set_spread (allPotentialTags_of cleanText sortedWords
                  (relevantCategoryTags_of cleanText sortedWords kws))) 0 maxTags)"
      by (auto simp: generateTags_try_def falsy_def Let_def cleanText_def sortedWords_def
               split: lookup.splits)
    have "set sortedWords \<subseteq> set (tokenize cleanText)"
      unfolding sortedWords_def using sortedWords_subset filteredTokens_subset by blast
    with allPotentialTags_sources [of cleanText sortedWords kws]
    have "set (allPotentialTags_of cleanText sortedWords
                 (relevantCategoryTags_of cleanText sortedWords kws))
            \<subseteq> set kws \<union> set (tokenize (cleanText_of d)) \<union> set COMMON_TAGS"
      unfolding cleanText_def by blast
    with JString kws tags show ?thesis by blast
  qed
qed (use assms in \<open>auto simp: generateTags_try_def falsy_def\<close>)

lemma generateTags_cases:
  "generateTags stopwords description category maxTags = [] \<or>
   (\<exists>d kws pool. description = JString d
      \<and> categorySpecificTags_of category = Own kws
      \<and> set pool \<subseteq> set kws \<union> set (tokenize (cleanText_of d)) \<union> set COMMON_TAGS
      \<and> generateTags stopwords description category maxTags
          = filter (\<lambda>tag. 3 \<le> length tag) (slice (Set_spread pool) 0 maxTags))"
proof (cases "generateTags_try stopwords description category maxTags")
  case (Inl e)
  then show ?thesis by (simp add: generateTags_def)
next
  case (Inr tags)
  then have "generateTags stopwords description category maxTags = tags"
    by (simp add: generateTags_def)
  with generateTags_try_Inr [OF Inr] show ?thesis by simp
qed

text \<open>
  C1 (as amended). For every non-negative \<open>maxTags\<close> the Tag Generator returns at most
  \<open>maxTags\<close> strings; and for every input, every returned string is lowercase and has
  length at least 3, and no string occurs twice.
\<close>

theorem generateTags_bounds:
  "(0 \<le> maxTags \<longrightarrow>
      int (length (generateTags stopwords description category maxTags)) \<le> maxTags)
   \<and> (\<forall>tag \<in> set (generateTags stopwords description category maxTags).
        toLowerCase tag = tag \<and> 3 \<le> length tag)
   \<and> distinct (generateTags stopwords description category maxTags)"
proof -
  consider
    (empty) "generateTags stopwords description category maxTags = []"
  | (tags) d kws pool where
      "categorySpecificTags_of category = Own kws"
      "set pool \<subseteq> set kws \<union> set (tokenize (cleanText_of d)) \<union> set COMMON_TAGS"
      "generateTags stopwords description category maxTags
         = filter (\<lambda>tag. 3 \<le> length tag) (slice (Set_spread pool) 0 maxTags)"
    using generateTags_cases [of stopwords description category maxTags] by blast
  then show ?thesis
  proof cases
    case empty
    then show ?thesis by simp
  next
    case tags
    let ?cut = "slice (Set_spread pool) 0 maxTags"
    have len: "0 \<le> maxTags \<Longrightarrow> int (length (filter (\<lambda>tag. 3 \<le> length tag) ?cut)) \<le> maxTags"
    proof -
      assume "0 \<le> maxTags"
      then have "int (length ?cut) \<le> maxTags" by (rule length_slice0)
      moreover have "length (filter (\<lambda>tag. 3 \<le> length tag) ?cut) \<le> length ?cut"
        by (rule length_filter_le)
      ultimately show ?thesis by linarith
    qed
    have dist: "distinct (filter (\<lambda>tag. 3 \<le> length tag) ?cut)"
      by (simp add: distinct_slice distinct_Set_spread)
    have low: "toLowerCase tag = tag \<and> 3 \<le> length tag"
      if "tag \<in> set (filter (\<lambda>tag. 3 \<le> length tag) ?cut)" for tag
    proof -
      from that have l3: "3 \<le> length tag" and "tag \<in> set ?cut" by auto
      then have "tag \<in> set pool" using set_slice set_Set_spread by fastforce
      with tags(2) consider "tag \<in> set kws" | "tag \<in> set (tokenize (cleanText_of d))"
        | "tag \<in> set COMMON_TAGS" by blast
      then have "toLowerCase tag = tag"
      proof cases
        case 1
        then show ?thesis using keyword_lower [OF tags(1) _ l3] by simp
      next
        case 2
        then show ?thesis by (rule token_lower)
      next
        case 3
        then show ?thesis using COMMON_TAGS_lower_all by (auto simp: list_all_iff)
      qed
      with l3 show ?thesis by simp
    qed
    show ?thesis unfolding tags(3) using len dist low by blast
  qed
qed

lemma generateTags_negative_example:
  "generateTags stopwords_en (JString ''vlog video content'') ''other'' (- 1)
     = [''vlog'', ''video'']"
  by code_simp

theorem generateTags_bounds_witness:
  "(0::int) \<le> 2
   \<and> generateTags stopwords_en (JString ''vlog video content'') ''other'' 2 = [''vlog'', ''video'']
   \<and> int (length (generateTags stopwords_en (JString ''vlog video content'') ''other'' 2)) \<le> 2
   \<and> toLowerCase ''video'' = ''video'' \<and> 3 \<le> length ''video''
   \<and> distinct (generateTags stopwords_en (JString ''vlog video content'') ''other'' 2)"
proof -
  have e: "generateTags stopwords_en (JString ''vlog video content'') ''other'' 2
             = [''vlog'', ''video'']"
    by code_simp
  show ?thesis
    using generateTags_bounds [of 2 stopwords_en "JString ''vlog video content''" "''other''"]
    unfolding e by simp
qed

theorem generateTags_bounds_counterexample:
  "generateTags stopwords_en (JString ''vlog video content'') ''other'' (- 1)
     = [''vlog'', ''video'']
   \<and> \<not> int (length (generateTags stopwords_en (JString ''vlog video content'') ''other'' (- 1)))
         \<le> - 1"
  by (simp add: generateTags_negative_example)

text \<open>
  C2. For every input that is not a string or is the empty string the Tag Generator
  returns the empty sequence; it never raises (the exported function is total), and
  whenever its body throws, it returns the empty sequence.
\<close>

theorem generateTags_fallback:
  "((typeof description \<noteq> ''string'' \<or> description = JString []) \<longrightarrow>
      generateTags stopwords description category maxTags = [])
   \<and> (\<forall>e. generateTags_try stopwords description category maxTags = Inl e \<longrightarrow>
          generateTags stopwords description category maxTags = [])"
proof -
  have "generateTags stopwords description category maxTags = []"
    if "typeof description \<noteq> ''string'' \<or> description = JString []"
    using that by (auto simp: generateTags_def generateTags_try_def falsy_def)
  moreover have "generateTags stopwords description category maxTags = []"
    if "generateTags_try stopwords description category maxTags = Inl e" for e
    using that by (simp add: generateTags_def)
  ultimately show ?thesis by blast
qed

theorem generateTags_fallback_witness:
  "typeof (JNumber 5) \<noteq> ''string''
   \<and> generateTags stopwords_en (JNumber 5) ''other'' 8 = []
   \<and> generateTags stopwords_en (JString []) ''other'' 8 = []
   \<and> generateTags_try stopwords_en (JString ''vlog video content'') ''toString'' 8 = Inl TypeError
   \<and> generateTags stopwords_en (JString ''vlog video content'') ''toString'' 8 = []"
proof -
  have e: "generateTags_try stopwords_en (JString ''vlog video content'') ''toString'' 8
             = Inl TypeError"
    by code_simp
  show ?thesis
    using generateTags_fallback [of "JNumber 5" stopwords_en "''other''" 8]
      generateTags_fallback [of "JString []" stopwords_en "''other''" 8]
      generateTags_fallback [of "JString ''vlog video content''" stopwords_en "''toString''" 8]
      e
    by simp
qed

text \<open>
  C10. Whenever the body of the Tag Generator returns, every returned tag is a keyword of
  the selected category's list, a token of the normalized description text, or an entry
  of the common-tag vocabulary.
\<close>

theorem generateTags_sources:
  assumes "generateTags_try stopwords description category maxTags = Inr tags"
  shows "\<forall>tag \<in> set tags.
           (\<exists>kws. categorySpecificTags_of category = Own kws \<and> tag \<in> set kws)
           \<or> (\<exists>d. description = JString d \<and> tag \<in> set (tokenize (cleanText_of d)))
           \<or> tag \<in> set COMMON_TAGS"
proof
  fix tag
  assume tag: "tag \<in> set tags"
  then have "tags \<noteq> []" by auto
  with generateTags_try_Inr [OF assms] obtain d kws pool where
    d: "description = JString d" and
    kws: "categorySpecificTags_of category = Own kws" and
    pool: "set pool \<subseteq> set kws \<union> set (tokenize (cleanText_of d)) \<union> set COMMON_TAGS" and
    tags: "tags = filter (\<lambda>tag. 3 \<le> length tag) (slice (Set_spread pool) 0 maxTags)"
    by blast
  from tag tags have "tag \<in> set (slice (Set_spread pool) 0 maxTags)" by simp
  then have "tag \<in> set pool" using set_slice set_Set_spread by fastforce
  with pool d kws
  show "(\<exists>kws. categorySpecificTags_of category = Own kws \<and> tag \<in> set kws)
        \<or> (\<exists>d. description = JString d \<and> tag \<in> set (tokenize (cleanText_of d)))
        \<or> tag \<in> set COMMON_TAGS"
    by blast
qed

theorem generateTags_sources_witness:
  "generateTags_try stopwords_en
     (JString ''I love building AI apps with React and Node tutorials'') ''technology'' 8
     = Inr [''tutorials'', ''tutorial'']
   \<and> ((\<exists>kws. categorySpecificTags_of ''technology'' = Own kws \<and> ''tutorials'' \<in> set kws)
      \<or> (\<exists>d. JString ''I love building AI apps with React and Node tutorials'' = JString d
              \<and> ''tutorials'' \<in> set (tokenize (cleanText_of d)))
      \<or> ''tutorials'' \<in> set COMMON_TAGS)"
proof -
  have e: "generateTags_try stopwords_en
     (JString ''I love building AI apps with React and Node tutorials'') ''technology'' 8
     = Inr [''tutorials'', ''tutorial'']"
    by code_simp
  from generateTags_sources [OF e] e show ?thesis by simp
qed

text \<open>
  A category that is neither a name of the table nor a key of \<^verbatim>\<open>Object.prototype\<close> is
  treated as \<^verbatim>\<open>other\<close>.
\<close>

lemma categorySpecificTags_fallback:
  assumes "category \<notin> fst ` set CATEGORY_TAGS" and "category \<notin> set Object_prototype_keys"
  shows "categorySpecificTags_of category = categorySpecificTags_of ''other''"
proof -
  from assms(1) have "map_of CATEGORY_TAGS category = None"
    by (simp add: map_of_eq_None_iff)
  with assms(2) have "obj_get CATEGORY_TAGS category = Undefined"
    by (simp add: obj_get_def)
  moreover have "obj_get CATEGORY_TAGS ''other'' \<noteq> Undefined"
    by code_simp
  ultimately show ?thesis
    by (cases "obj_get CATEGORY_TAGS ''other''") (simp_all add: categorySpecificTags_of_def)
qed

lemma generateTags_unknown_category:
  assumes "category \<notin> fst ` set CATEGORY_TAGS" and "category \<notin> set Object_prototype_keys"
  shows "generateTags stopwords description category maxTags
           = generateTags stopwords description ''other'' maxTags"
  unfolding generateTags_def generateTags_try_def categorySpecificTags_fallback [OF assms]
  by (rule refl)

text \<open>
  C9. The category \<^verbatim>\<open>constructor\<close> is not one of the 18 names, yet the Tag Generator
  does not use the keyword list of \<^verbatim>\<open>other\<close> for it: \<^verbatim>\<open>CATEGORY_TAGS['constructor']\<close>
  is the inherited function \<^verbatim>\<open>Object\<close>, which is truthy and has no \<^verbatim>\<open>filter\<close>; the
  TypeError is caught and the result is empty, where the category \<^verbatim>\<open>other\<close> yields
  three tags.
\<close>

theorem generateTags_inherited_category:
  "''constructor'' \<notin> fst ` set CATEGORY_TAGS
   \<and> generateTags stopwords_en (JString ''vlog video content'') ''constructor'' 8 = []
   \<and> generateTags stopwords_en (JString ''vlog video content'') ''other'' 8
       = [''vlog'', ''video'', ''content'']"
  by code_simp

subsection \<open>The frequency ranking of the Tag Generator\<close>

text \<open>
  Where no filtered token is a key of \<^verbatim>\<open>Object.prototype\<close>, the counting object holds the
  tokens in the order of their first occurrence with their numbers of occurrences, and the
  ranking step is the ranking of the specification.
\<close>

lemma Set_spread_snoc:
  "Set_spread (xs @ [x]) = (if x \<in> set xs then Set_spread xs else Set_spread xs @ [x])"
  using set_Set_spread [of xs] by (simp add: Set_spread_def)

lemma update_counts:
  assumes "k \<in> set ws" and "distinct ws"
  shows "AList.update k v (map (\<lambda>w. (w, f w)) ws) = map (\<lambda>w. (w, if w = k then v else f w)) ws"
  using assms
proof (induction ws)
  case Nil
  then show ?case by simp
next
  case (Cons w ws)
  show ?case
  proof (cases "w = k")
    case True
    with Cons.prems have "k \<notin> set ws" by simp
    then have "map (\<lambda>w. (w, if w = k then v else f w)) ws = map (\<lambda>w. (w, f w)) ws"
      by (intro map_cong refl) auto
    with True show ?thesis by simp
  next
    case False
    with Cons show ?thesis by simp
  qed
qed

lemma map_of_counts:
  "map_of (map (\<lambda>w. (w, f w)) ws) k = (if k \<in> set ws then Some (f k) else None)"
  by (induction ws) auto

lemma wordFreq_counts:
  assumes "set tokens \<inter> set Object_prototype_keys = {}"
  shows "wordFreq_of tokens
         = map (\<lambda>word. (word, Number (count_list tokens word))) (Set_spread tokens)"
  using assms
proof (induction tokens rule: rev_induct)
  case Nil
  show ?case by (simp add: wordFreq_of_def Set_spread_def)
next
  case (snoc t ts)
  define old where "old = count_list ts"
  define new where "new = count_list (ts @ [t])"
  have new_t: "new t = old t + 1" and new_other: "w \<noteq> t \<Longrightarrow> new w = old w" for w
    by (simp_all add: new_def old_def)
  let ?obj = "map (\<lambda>word. (word, Number (old word))) (Set_spread ts)"
  from snoc have IH: "wordFreq_of ts = ?obj" by (auto simp: old_def)
  from snoc.prems have t: "t \<notin> set Object_prototype_keys" by auto
  then have proto: "t \<noteq> ''__proto__''" by (auto simp: Object_prototype_keys_def)
  have step: "wordFreq_of (ts @ [t]) = increment ?obj t"
    using IH by (simp add: wordFreq_of_def)
  have "increment ?obj t = map (\<lambda>word. (word, Number (new word))) (Set_spread (ts @ [t]))"
  proof (cases "t \<in> set ts")
    case True
    then have "obj_get ?obj t = Own (Number (old t))"
      by (simp add: obj_get_def map_of_counts set_Set_spread)
    then have "increment ?obj t = AList.update t (Number (old t + 1)) ?obj"
      using proto by (simp add: increment_def obj_set_def)
    also have "\<dots> = map (\<lambda>word. (word, if word = t then Number (old t + 1)
                                        else Number (old word))) (Set_spread ts)"
      using True by (simp add: update_counts set_Set_spread distinct_Set_spread)
    also have "\<dots> = map (\<lambda>word. (word, Number (new word))) (Set_spread ts)"
      by (intro map_cong refl) (simp add: new_t new_other)
    finally show ?thesis using True by (simp add: Set_spread_snoc)
  next
    case False
    then have "obj_get ?obj t = Undefined"
      using t by (simp add: obj_get_def map_of_counts set_Set_spread)
    moreover have "t \<notin> fst ` set ?obj"
      using False by (auto simp: set_Set_spread)
    ultimately have a: "increment ?obj t = ?obj @ [(t, Number 1)]"
      using proto by (simp add: increment_def obj_set_fresh)
    have b: "?obj = map (\<lambda>word. (word, Number (new word))) (Set_spread ts)"
    proof (intro map_cong refl)
      fix word
      assume "word \<in> set (Set_spread ts)"
      with False have "word \<noteq> t" by (auto simp: set_Set_spread)
      then show "(word, Number (old word)) = (word, Number (new word))"
        by (simp add: new_other)
    qed
    have "old t = 0" using False by (simp add: old_def)
    then have c: "new t = 1" by (simp add: new_t)
    show ?thesis unfolding a using False by (simp add: Set_spread_snoc b [symmetric] c)
  qed
  then show ?case unfolding step new_def .
qed

lemma sortedWords_ranking:
  assumes "set filteredTokens \<inter> set Object_prototype_keys = {}"
  shows "sortedWords_of filteredTokens = ranked_tokens_spec filteredTokens"
proof -
  let ?counts = "map (\<lambda>word. (word, count_list filteredTokens word)) (Set_spread filteredTokens)"
  let ?sorted = "sort_key (\<lambda>p :: string \<times> nat. - int (snd p)) ?counts"
  have "wordFreq_of filteredTokens = map (\<lambda>(word, n). (word, Number n)) ?counts"
    unfolding wordFreq_counts [OF assms] by simp
  then have "js_sort by_value_desc (wordFreq_of filteredTokens)
             = map (\<lambda>(word, n). (word, Number n)) ?sorted"
    by (simp only: js_sort_counts)
  then have "sortedWords_of filteredTokens
             = map fst (take 15 (map (\<lambda>(word, n). (word, Number n)) ?sorted))"
    by (simp add: sortedWords_of_def slice0_eq)
  also have "\<dots> = take 15 (map fst ?sorted)"
    unfolding take_map by (auto split: prod.splits)
  also have "(\<lambda>p :: string \<times> nat. - int (snd p)) = (\<lambda>(word, n). - int n)"
    by auto
  finally show ?thesis by (simp add: ranked_tokens_spec_def)
qed

lemma sortedWords_ranking_example:
  "sortedWords_of [''node'', ''react'', ''apps'', ''react'', ''apps'', ''tips'']
     = [''react'', ''apps'', ''node'', ''tips'']"
  by code_simp

text \<open>
  C6. The ranking step on the filtered tokens \<^verbatim>\<open>constructor vlog vlog\<close> puts
  \<^verbatim>\<open>constructor\<close> (one occurrence) before \<^verbatim>\<open>vlog\<close> (two occurrences), where
  the ranking by descending frequency puts \<^verbatim>\<open>vlog\<close> first:
  \<^verbatim>\<open>wordFreq['constructor']\<close> starts from the inherited function, so its count is a
  string and the comparator yields NaN. The token \<^verbatim>\<open>__proto__\<close> survives the filter and
  is not counted at all.
\<close>

theorem sortedWords_inherited_keys:
  "filteredTokens_of stopwords_en (tokenize (cleanText_of ''constructor vlog vlog''))
     = [''constructor'', ''vlog'', ''vlog'']
   \<and> sortedWords_of [''constructor'', ''vlog'', ''vlog''] = [''constructor'', ''vlog'']
   \<and> ranked_tokens_spec [''constructor'', ''vlog'', ''vlog''] = [''vlog'', ''constructor'']
   \<and> filteredTokens_of stopwords_en (tokenize (cleanText_of ''__proto__ __proto__ vlog''))
     = [''__proto__'', ''__proto__'', ''vlog'']
   \<and> sortedWords_of [''__proto__'', ''__proto__'', ''vlog''] = [''vlog'']
   \<and> ranked_tokens_spec [''__proto__'', ''__proto__'', ''vlog''] = [''__proto__'', ''vlog'']"
  by code_simp

subsection \<open>Category Suggester\<close>

lemma str_includes_sublist: "str_includes s t = sublist t s"
  by (induction s) (simp_all add: sublist_Cons_right)

lemma str_includes_iff: "str_includes s t \<longleftrightarrow> (\<exists>before after. s = before @ t @ after)"
  by (simp add: str_includes_sublist sublist_def)

lemma foldl_count:
  "foldl (\<lambda>score k. if P k then score + 1 else score) (n::nat) ks = n + length (filter P ks)"
  by (induction ks arbitrary: n) simp_all

lemma category_score_distinct:
  assumes "distinct keywords"
  shows "category_score blob keywords = keyword_score_spec blob keywords"
proof -
  have "category_score blob keywords = length (filter (str_includes blob) keywords)"
    by (simp add: category_score_def foldl_count)
  also have "\<dots> = card ({k. str_includes blob k} \<inter> set keywords)"
    using assms by (rule distinct_length_filter)
  also have "{k. str_includes blob k} \<inter> set keywords
               = {k \<in> set keywords. \<exists>before after. blob = before @ k @ after}"
    by (auto simp: str_includes_iff)
  finally show ?thesis by (simp add: keyword_score_spec_def)
qed

lemma CATEGORY_TAGS_distinct_keywords:
  "list_all (\<lambda>(category, keywords). distinct keywords) CATEGORY_TAGS"
  by code_simp

lemma CATEGORY_TAGS_names:
  "distinct (map fst CATEGORY_TAGS) \<and> ''__proto__'' \<notin> set (map fst CATEGORY_TAGS)
   \<and> length CATEGORY_TAGS = 18"
  by code_simp

lemma categoryScores_foldl:
  assumes "distinct (map fst rows)" and "''__proto__'' \<notin> fst ` set rows"
    and "fst ` set scores \<inter> fst ` set rows = {}"
  shows "foldl (\<lambda>scores (category, keywords).
                  if category_score cleanText keywords > 0
                  then obj_set scores category (Number (category_score cleanText keywords))
                  else scores)
           scores rows
         = scores @ map (\<lambda>(category, score). (category, Number score))
                      (filter (\<lambda>(category, score). 0 < score)
                         (map (\<lambda>(category, keywords).
                                 (category, category_score cleanText keywords)) rows))"
  using assms
proof (induction rows arbitrary: scores)
  case Nil
  show ?case by simp
next
  case (Cons row rows)
  obtain category kws where row: "row = (category, kws)" by (cases row)
  let ?next = "if category_score cleanText kws > 0
               then scores @ [(category, Number (category_score cleanText kws))]
               else scores"
  from Cons.prems row have fresh: "category \<noteq> ''__proto__''" "category \<notin> fst ` set scores"
    by auto
  have step: "(if category_score cleanText kws > 0
               then obj_set scores category (Number (category_score cleanText kws))
               else scores) = ?next"
    by (simp add: obj_set_fresh [OF fresh])
  have disj: "fst ` set ?next \<inter> fst ` set rows = {}"
    using Cons.prems row by auto
  have "distinct (map fst rows)" and "''__proto__'' \<notin> fst ` set rows"
    using Cons.prems by auto
  from Cons.IH [OF this disj] show ?case
    unfolding row by (simp add: step)
qed

lemma scored_categories_source:
  "filter (\<lambda>(category, score). 0 < score)
     (map (\<lambda>(category, keywords).
             (category, category_score (toLowerCase (description @ '' '' @ join '' '' tags))
                          keywords)) CATEGORY_TAGS)
   = scored_categories_spec description tags"
proof -
  have "map (\<lambda>(category, keywords). (category, category_score blob keywords)) CATEGORY_TAGS
        = map (\<lambda>(category, keywords). (category, keyword_score_spec blob keywords))
            CATEGORY_TAGS" for blob
    using CATEGORY_TAGS_distinct_keywords
    by (intro map_cong refl) (auto simp: list_all_iff category_score_distinct)
  then show ?thesis unfolding scored_categories_spec_def Let_def by (rule arg_cong)
qed

lemma suggestCategories_eq:
  "suggestCategories description tags
   = take 3 (map fst (sort_key (\<lambda>p. - int (snd p)) (scored_categories_spec description tags)))"
proof -
  have names: "distinct (map fst CATEGORY_TAGS)" "''__proto__'' \<notin> fst ` set CATEGORY_TAGS"
    using CATEGORY_TAGS_names by simp_all
  have empty: "fst ` set ([] :: propval jsobject) \<inter> fst ` set CATEGORY_TAGS = {}"
    by simp
  show ?thesis
    unfolding suggestCategories_def suggestCategories_try_def Let_def
      categoryScores_foldl [OF names empty] scored_categories_source
    by (auto simp: js_sort_counts slice0_eq take_map split: prod.splits)
qed

text \<open>
  C5. The Category Suggester returns the first three names of a ranking of the table's
  categories in which each category has as score the number of its keywords that occur
  literally in the lowercased blob of description and tags, the categories of score zero
  are left out, the scores descend, and categories of equal score stand in the order of
  the table. The result has at most three names, each one of the 18 names of the table.
\<close>

theorem suggestCategories_ranking:
  "(\<exists>ranked.
      mset ranked = mset (scored_categories_spec description tags)
      \<and> sorted_wrt (\<lambda>p q. snd q \<le> snd p) ranked
      \<and> (\<forall>score. filter (\<lambda>p. snd p = score) ranked
                  = filter (\<lambda>p. snd p = score) (scored_categories_spec description tags))
      \<and> suggestCategories description tags = take 3 (map fst ranked))
   \<and> length (suggestCategories description tags) \<le> 3
   \<and> set (suggestCategories description tags) \<subseteq> fst ` set CATEGORY_TAGS
   \<and> length CATEGORY_TAGS = 18 \<and> distinct (map fst CATEGORY_TAGS)"
proof -
  let ?scored = "scored_categories_spec description tags"
  let ?key = "\<lambda>p :: string \<times> nat. - int (snd p)"
  let ?ranked = "sort_key ?key ?scored"
  have perm: "mset ?ranked = mset ?scored" by simp
  have "sorted (map ?key ?ranked)" by (rule sorted_sort_key)
  then have desc: "sorted_wrt (\<lambda>p q. snd q \<le> snd p) ?ranked"
    by (simp add: sorted_map)
  have stable: "filter (\<lambda>p. snd p = score) ?ranked = filter (\<lambda>p. snd p = score) ?scored"
    for score
    using sort_key_stable [of ?key "- int score" ?scored] by simp
  have res: "suggestCategories description tags = take 3 (map fst ?ranked)"
    by (rule suggestCategories_eq)
  have "set (map fst ?ranked) \<subseteq> fst ` set CATEGORY_TAGS"
    by (force simp: scored_categories_spec_def Let_def)
  then have names: "set (suggestCategories description tags) \<subseteq> fst ` set CATEGORY_TAGS"
    unfolding res using set_take_subset by fastforce
  have len: "length (suggestCategories description tags) \<le> 3"
    unfolding res by simp
  from perm desc stable res len names CATEGORY_TAGS_names show ?thesis by blast
qed

theorem suggestCategories_ranking_witness:
  "suggestCategories ''Cooking a recipe on our trip: street FOOD and culture'' [''Travel'']
     = [''travel'', ''food'']
   \<and> scored_categories_spec ''Cooking a recipe on our trip: street FOOD and culture''
        [''Travel'']
     = [(''travel'', 3), (''food'', 3)]
   \<and> length (suggestCategories ''Cooking a recipe on our trip: street FOOD and culture''
        [''Travel'']) \<le> 3"
proof -
  have e: "suggestCategories ''Cooking a recipe on our trip: street FOOD and culture''
             [''Travel''] = [''travel'', ''food'']"
    by code_simp
  have "filter (\<lambda>(category, score). 0 < score)
     (map (\<lambda>(category, keywords).
             (category, category_score (toLowerCase (''Cooking a recipe on our trip: street FOOD and culture'' @ '' '' @ join '' '' [''Travel'']))
                          keywords)) CATEGORY_TAGS) = [(''travel'', 3), (''food'', 3)]"
    by code_simp
  then have s: "scored_categories_spec ''Cooking a recipe on our trip: street FOOD and culture''
             [''Travel''] = [(''travel'', 3), (''food'', 3)]"
    by (simp only: scored_categories_source)
  show ?thesis
    using suggestCategories_ranking
      [of "''Cooking a recipe on our trip: street FOOD and culture''" "[''Travel'']"]
    unfolding e s by simp
qed

subsection \<open>Key-Phrase Extractor\<close>

lemma slice_window:
  assumes "i + n \<le> length xs"
  shows "slice xs (int i) (int i + int n) = take n (drop i xs)"
  using assms by (simp add: slice_def Let_def min_def)

lemma slice_trigram:
  assumes "i + 2 < length words"
  shows "join '' '' (slice words (int i) (int i + 3)) = trigram_at words i"
proof -
  have "slice words (int i) (int i + 3) = take 3 (drop i words)"
    using slice_window [of i 3 words] assms by simp
  also have "\<dots> = [words ! i, words ! (i + 1), words ! (i + 2)]"
    using assms by (simp add: numeral_3_eq_3 take_Suc_conv_app_nth add.commute)
  finally show ?thesis by (simp add: trigram_at_def)
qed

lemma slice_bigram:
  assumes "i + 1 < length words"
  shows "join '' '' (slice words (int i) (int i + 2)) = bigram_at words i"
proof -
  have "slice words (int i) (int i + 2) = take 2 (drop i words)"
    using slice_window [of i 2 words] assms by simp
  also have "\<dots> = [words ! i, words ! (i + 1)]"
    using assms by (simp add: numeral_2_eq_2 take_Suc_conv_app_nth add.commute)
  finally show ?thesis by (simp add: bigram_at_def)
qed

lemma ngram_loop_step:
  assumes "i + 1 < length words"
  shows "ngram_loop words i phrases = ngram_loop words (i + 1) (phrases @ ngrams_at words i)"
proof (cases "i + 2 < length words")
  case True
  then have c: "int i < int (length words) - 1" "int i < int (length words) - 2" by linarith+
  show ?thesis
    by (subst ngram_loop.simps)
       (use c True assms in \<open>simp add: Let_def slice_trigram slice_bigram ngrams_at_def\<close>)
next
  case False
  with assms have c: "int i < int (length words) - 1" "\<not> int i < int (length words) - 2"
    by linarith+
  show ?thesis
    by (subst ngram_loop.simps)
       (use c False assms in \<open>simp add: Let_def slice_bigram ngrams_at_def\<close>)
qed

lemma ngram_loop_done:
  assumes "\<not> i + 1 < length words"
  shows "ngram_loop words i phrases = phrases"
proof -
  from assms have "\<not> int i < int (length words) - 1" by linarith
  then show ?thesis by (subst ngram_loop.simps) simp
qed

lemma ngrams_at_last: "\<not> i + 1 < length words \<Longrightarrow> ngrams_at words i = []"
  by (simp add: ngrams_at_def)

lemma ngram_loop_from:
  "ngram_loop words i phrases = phrases @ concat (map (ngrams_at words) [i..<length words])"
proof (induction "length words - i" arbitrary: i phrases)
  case 0
  then have "length words \<le> i" by simp
  then have a: "\<not> i + 1 < length words" and b: "[i..<length words] = []" by simp_all
  show ?case unfolding b using ngram_loop_done [OF a] by simp
next
  case (Suc n)
  then have i: "i < length words" by simp
  show ?case
  proof (cases "i + 1 < length words")
    case True
    have "ngram_loop words i phrases = ngram_loop words (i + 1) (phrases @ ngrams_at words i)"
      by (rule ngram_loop_step [OF True])
    also have "\<dots> = (phrases @ ngrams_at words i)
                     @ concat (map (ngrams_at words) [i + 1..<length words])"
      using Suc.hyps(1) [of "i + 1"] Suc.hyps(2) by simp
    also have "\<dots> = phrases @ concat (map (ngrams_at words) [i..<length words])"
      using i by (simp add: upt_conv_Cons)
    finally show ?thesis .
  next
    case False
    with i have "[i..<length words] = [i]" by (simp add: upt_conv_Cons)
    with False show ?thesis by (simp add: ngram_loop_done ngrams_at_last)
  qed
qed

lemma phrases_of_foldl:
  "foldl (\<lambda>phrases sentence. ngram_loop (words_of stopwords sentence) 0 phrases)
     pool sentences
   = pool @ concat (map (\<lambda>sentence. ngram_pool_spec (words_of stopwords sentence)) sentences)"
  by (induction sentences arbitrary: pool)
     (simp_all add: ngram_loop_from ngram_pool_spec_def)

text \<open>
  C8. For every sequence of filtered words the loop appends to the candidate pool exactly
  the n-grams of the specification, index by index: the trigram at each index \<open>i\<close> with
  \<open>i + 2\<close> in bounds and a joined length above 8, then the bigram at \<open>i\<close> with
  \<open>i + 1\<close> in bounds and a joined length above 5; the pool of a description is the
  concatenation of these contributions over its sentences. Where both conditions hold at
  an index, the trigram and the bigram it contains are both in the pool.
\<close>

theorem ngram_loop_pool:
  "ngram_loop words 0 phrases = phrases @ ngram_pool_spec words
   \<and> phrases_of stopwords sentences
       = concat (map (\<lambda>sentence. ngram_pool_spec (words_of stopwords sentence)) sentences)
   \<and> (\<forall>i. i + 2 < length words \<and> 8 < length (trigram_at words i)
            \<and> 5 < length (bigram_at words i) \<longrightarrow>
          trigram_at words i \<in> set (ngram_pool_spec words)
          \<and> bigram_at words i \<in> set (ngram_pool_spec words))"
proof -
  have "trigram_at words i \<in> set (ngram_pool_spec words)
        \<and> bigram_at words i \<in> set (ngram_pool_spec words)"
    if "i + 2 < length words \<and> 8 < length (trigram_at words i)
        \<and> 5 < length (bigram_at words i)" for i
  proof -
    from that have "ngrams_at words i = [trigram_at words i, bigram_at words i]"
      by (simp add: ngrams_at_def)
    moreover from that have "i \<in> set [0..<length words]" by simp
    ultimately show ?thesis unfolding ngram_pool_spec_def set_concat by fastforce
  qed
  moreover have "ngram_loop words 0 phrases = phrases @ ngram_pool_spec words"
    using ngram_loop_from [of words 0 phrases] by (simp add: ngram_pool_spec_def)
  moreover have "phrases_of stopwords sentences
       = concat (map (\<lambda>sentence. ngram_pool_spec (words_of stopwords sentence)) sentences)"
    using phrases_of_foldl [of stopwords "[]" sentences] by (simp add: phrases_of_def)
  ultimately show ?thesis by blast
qed

theorem ngram_loop_pool_witness:
  "ngram_loop [''home'', ''workout'', ''routine'', ''today''] 0 [''earlier phrase'']
     = [''earlier phrase'', ''home workout routine'', ''home workout'',
        ''workout routine today'', ''workout routine'', ''routine today'']
   \<and> ngram_pool_spec [''home'', ''workout'', ''routine'', ''today'']
     = [''home workout routine'', ''home workout'',
        ''workout routine today'', ''workout routine'', ''routine today'']
   \<and> phrases_of stopwords_en [''Home workout routine'', '' Try the home workout'']
     = [''home workout routine'', ''home workout'', ''workout routine'',
        ''try home workout'', ''try home'', ''home workout'']
   \<and> trigram_at [''home'', ''workout'', ''routine'', ''today''] 0 = ''home workout routine''
   \<and> bigram_at [''home'', ''workout'', ''routine'', ''today''] 0 = ''home workout''"
proof -
  have e: "ngram_pool_spec [''home'', ''workout'', ''routine'', ''today'']
     = [''home workout routine'', ''home workout'',
        ''workout routine today'', ''workout routine'', ''routine today'']"
    by code_simp
  have t: "trigram_at [''home'', ''workout'', ''routine'', ''today''] 0 = ''home workout routine''"
    by code_simp
  have b: "bigram_at [''home'', ''workout'', ''routine'', ''today''] 0 = ''home workout''"
    by code_simp
  have p: "concat (map (\<lambda>sentence. ngram_pool_spec (words_of stopwords_en sentence))
                     [''Home workout routine'', '' Try the home workout''])
     = [''home workout routine'', ''home workout'', ''workout routine'',
        ''try home workout'', ''try home'', ''home workout'']"
    by code_simp
  show ?thesis
    using ngram_loop_pool [of "[''home'', ''workout'', ''routine'', ''today'']"
                              "[''earlier phrase'']" stopwords_en
                              "[''Home workout routine'', '' Try the home workout'']"]
    unfolding e t b p by simp
qed

lemma extractKeyPhrases_try_Inr:
  "extractKeyPhrases_try stopwords description maxPhrases = Inr phrases \<Longrightarrow>
     \<exists>entries :: (string \<times> propval) list. phrases = map fst (slice entries 0 maxPhrases)"
  unfolding extractKeyPhrases_try_def Let_def
  by (cases "the_string description") auto

text \<open>
  C7 (as amended). For every non-negative \<open>maxPhrases\<close> the Key-Phrase Extractor returns
  at most \<open>maxPhrases\<close> phrases; for every input it never raises (the exported function
  is total) and returns the empty sequence whenever its body throws; and for the empty
  description it returns the empty sequence.
\<close>

theorem extractKeyPhrases_bounds:
  "(0 \<le> maxPhrases \<longrightarrow>
      int (length (extractKeyPhrases stopwords description maxPhrases)) \<le> maxPhrases)
   \<and> (\<forall>e. extractKeyPhrases_try stopwords description maxPhrases = Inl e \<longrightarrow>
          extractKeyPhrases stopwords description maxPhrases = [])
   \<and> extractKeyPhrases stopwords (JString []) maxPhrases = []"
proof -
  have "int (length (extractKeyPhrases stopwords description maxPhrases)) \<le> maxPhrases"
    if "0 \<le> maxPhrases"
  proof (cases "extractKeyPhrases_try stopwords description maxPhrases")
    case (Inl e)
    with that show ?thesis by (simp add: extractKeyPhrases_def)
  next
    case (Inr phrases)
    then obtain entries :: "(string \<times> propval) list"
      where "phrases = map fst (slice entries 0 maxPhrases)"
      using extractKeyPhrases_try_Inr by blast
    with Inr that show ?thesis by (simp add: extractKeyPhrases_def length_slice0)
  qed
  moreover have "extractKeyPhrases stopwords (JString []) maxPhrases = []"
    by (simp add: extractKeyPhrases_def extractKeyPhrases_try_def phrases_of_def
          js_sort_def slice_def trim_def)
  ultimately show ?thesis by (simp add: extractKeyPhrases_def)
qed

theorem extractKeyPhrases_bounds_witness:
  "(0::int) \<le> 2
   \<and> extractKeyPhrases stopwords_en (JString ''home workout routine'') 2
       = [''home workout routine'', ''home workout'']
   \<and> int (length (extractKeyPhrases stopwords_en (JString ''home workout routine'') 2)) \<le> 2
   \<and> extractKeyPhrases_try stopwords_en JUndefined 2 = Inl TypeError
   \<and> extractKeyPhrases stopwords_en JUndefined 2 = []
   \<and> extractKeyPhrases stopwords_en (JString []) 2 = []"
proof -
  have e: "extractKeyPhrases stopwords_en (JString ''home workout routine'') 2
             = [''home workout routine'', ''home workout'']"
    by code_simp
  have u: "extractKeyPhrases_try stopwords_en JUndefined 2 = Inl TypeError"
    by (simp add: extractKeyPhrases_try_def)
  show ?thesis
    using extractKeyPhrases_bounds [of 2 stopwords_en "JString ''home workout routine''"]
      extractKeyPhrases_bounds [of 2 stopwords_en JUndefined] u
    unfolding e by simp
qed

theorem extractKeyPhrases_bounds_counterexample:
  "extractKeyPhrases stopwords_en (JString ''home workout routine'') (- 1)
     = [''home workout routine'', ''home workout'']
   \<and> \<not> int (length (extractKeyPhrases stopwords_en (JString ''home workout routine'') (- 1)))
         \<le> - 1"
proof -
  have e: "extractKeyPhrases stopwords_en (JString ''home workout routine'') (- 1)
             = [''home workout routine'', ''home workout'']"
    by code_simp
  show ?thesis unfolding e by simp
qed

subsection \<open>Sentiment Classifier\<close>

lemma analyzeSentiment_try_labels:
  "analyzeSentiment_try getSentiment description = Inr label \<Longrightarrow>
     label = ''positive'' \<or> label = ''negative'' \<or> label = ''neutral''"
  unfolding analyzeSentiment_try_def
  by (auto simp: Let_def split: sum.splits if_splits)

text \<open>
  C3. For every input the Sentiment Classifier returns one of the three labels
  positive, negative and neutral; it never raises (the exported function is total), and
  whenever its body throws, it returns neutral.
\<close>

theorem analyzeSentiment_label:
  "(analyzeSentiment getSentiment description = ''positive''
      \<or> analyzeSentiment getSentiment description = ''negative''
      \<or> analyzeSentiment getSentiment description = ''neutral'')
   \<and> (\<forall>e. analyzeSentiment_try getSentiment description = Inl e \<longrightarrow>
          analyzeSentiment getSentiment description = ''neutral'')"
proof (cases "analyzeSentiment_try getSentiment description")
  case (Inl e)
  then show ?thesis by (simp add: analyzeSentiment_def)
next
  case (Inr label)
  then show ?thesis
    using analyzeSentiment_try_labels [OF Inr] by (auto simp: analyzeSentiment_def)
qed

theorem analyzeSentiment_label_witness:
  "analyzeSentiment_try (\<lambda>tokens. 1) JUndefined = Inl TypeError
   \<and> analyzeSentiment (\<lambda>tokens. 1) JUndefined = ''neutral''"
  using analyzeSentiment_label [of "\<lambda>tokens. 1" JUndefined]
  by (simp add: analyzeSentiment_try_def WordTokenizer_call_def)

text \<open>
  C4. On the description "This is absolutely amazing and wonderful, I love it so much!"
  the classifier does not get as far as the score: \<^verbatim>\<open>natural.WordTokenizer()\<close> is
  called without \<^verbatim>\<open>new\<close>, the TypeError is caught, and the label is neutral, whatever
  score the analyzer would give.
\<close>

theorem analyzeSentiment_scenario3:
  "analyzeSentiment getSentiment
     (JString ''This is absolutely amazing and wonderful, I love it so much!'') = ''neutral''"
  by (simp add: analyzeSentiment_def analyzeSentiment_try_def WordTokenizer_call_def)

end
